theory Spec2Isabelle
  imports Main
begin

section \<open>Data model\<close>

text \<open>
  The three services of the order management system (order saga, inventory ledger,
  shipment tracker) and the event bus that connects them, as one state record.
  Quantities are JavaScript numbers used as integers: \<open>int\<close>. The two \<open>Date\<close>
  fields of an order and of a shipment line are wall-clock stamps that no branch reads;
  they are left out.
\<close>

record OrderItem =
  productId :: string
  quantity :: int

text \<open>\<open>InventoryItem\<close> (inventoryService.ts): productId, quantity, reserved.\<close>

record InventoryItem = OrderItem +
  reserved :: int

datatype ShipmentStatus = ShipmentPending | Shipped | Delivered

text \<open>\<open>ShipmentItem\<close> (shippingService.ts): orderId, productId, quantity, status.\<close>

record ShipmentItem = OrderItem +
  orderId :: string
  status :: ShipmentStatus

datatype OrderStatus = Pending | Processing | Partial | Fulfilled | Cancelled

text \<open>\<open>Order\<close> (orderService.ts); the field \<open>id\<close> is called \<open>order_id\<close> here.\<close>

record Order =
  order_id :: string
  items :: "OrderItem list"
  status :: OrderStatus
  fulfillableItems :: "OrderItem list"
  unfulfillableItems :: "OrderItem list"

text \<open>The six event interfaces of eventBus.ts; the constructor is the \<open>type\<close> tag.\<close>

datatype event =
    OrderPlaced string "OrderItem list"
  | StockReserved string "OrderItem list"
  | OutOfStock string string int int
  | OrderReadyForShipping string "OrderItem list"
  | ItemShipped string string int
  | ItemDelivered string string int

text \<open>
  A suspended \<open>async\<close> function: where it waits and the local variables it resumes with.
  \<^item> \<open>PlacedDelay k item rest reservations\<close>: \<open>handleOrderPlaced\<close> for order \<open>k\<close> at the
    pacing timer at the head of the loop body, \<open>item\<close> the line of this iteration, \<open>rest\<close>
    the lines the iterator has not reached.
  \<^item> \<open>PlacedLock\<close>: the same call, inside \<open>tryReserveStock\<close>, at the 10 ms timer of the
    lock-polling loop.
  \<^item> \<open>PlacedResult k item rest reservations success availableQuantity\<close>: at the
    \<open>await\<close> of the promise \<open>tryReserveStock\<close> returned, with its result.
  \<^item> \<open>ShipDelay a\<close>, \<open>DeliverDelay a\<close>: \<open>processShipment\<close> of the shipment object at
    address \<open>a\<close>, at its first and at its second timer.
\<close>

datatype task =
    PlacedDelay string OrderItem "OrderItem list" "OrderItem list"
  | PlacedLock string OrderItem "OrderItem list" "OrderItem list"
  | PlacedResult string OrderItem "OrderItem list" "OrderItem list" bool int
  | ShipDelay nat
  | DeliverDelay nat

text \<open>
  The state of the process. \<open>inventory\<close> and \<open>lockMap\<close> are the maps of
  \<open>InventoryService\<close>, \<open>orders\<close> the map of \<open>OrderService\<close>. \<open>ShippingService\<close> keeps
  arrays of objects that its timers mutate after a later event may have replaced the
  array: \<open>shipmentObjects\<close> is the store of those objects and \<open>shipments\<close> maps an order
  to the addresses of its current array. \<open>tasks\<close> are the suspended calls.

  Two fields are histories that no code reads: \<open>published\<close>, every event passed to
  \<open>eventBus.publish\<close> in order, and \<open>attempts\<close>, every returned call of
  \<open>tryReserveStock\<close> made by \<open>handleOrderPlaced\<close> in order (order id, line, success,
  availableQuantity).
\<close>

record system =
  inventory :: "string \<rightharpoonup> InventoryItem"
  lockMap :: "string \<rightharpoonup> bool"
  orders :: "string \<rightharpoonup> Order"
  shipments :: "string \<rightharpoonup> nat list"
  shipmentObjects :: "ShipmentItem list"
  tasks :: "task list"
  published :: "event list"
  attempts :: "(string \<times> OrderItem \<times> bool \<times> int) list"

section \<open>Event bus\<close>

text \<open>
  \<open>EventBus.publish\<close> calls every subscribed handler synchronously. The subscriptions
  are those of the three constructors (index.ts builds one instance of each service):
  \<open>OrderPlaced\<close> goes to \<open>InventoryService.handleOrderPlaced\<close>, \<open>StockReserved\<close> and
  \<open>OutOfStock\<close> to the two handlers of \<open>OrderService\<close>, \<open>OrderReadyForShipping\<close> to
  \<open>ShippingService\<close>; \<open>ItemShipped\<close> and \<open>ItemDelivered\<close> have no subscriber. Each
  \<open>publish...\<close> function below records the event and runs that handler.
\<close>

definition record_event :: "event \<Rightarrow> system \<Rightarrow> system" where
  "record_event e s = s\<lparr>published := published s @ [e]\<rparr>"

section \<open>Shipment tracker (shippingService.ts)\<close>

text \<open>
  \<open>handleOrderReadyForShipping\<close>: one pending object per line, stored under the order
  id (replacing an earlier array), then \<open>processShipment\<close> is started on each; every
  such call runs to its first timer.
\<close>

definition handleOrderReadyForShipping :: "string \<Rightarrow> OrderItem list \<Rightarrow> system \<Rightarrow> system" where
  "handleOrderReadyForShipping k its s =
     (let shipmentItems =
            map (\<lambda>item. \<lparr>productId = productId item, quantity = quantity item,
                          orderId = k, status = ShipmentPending\<rparr>) its;
          addrs = [length (shipmentObjects s) ..< length (shipmentObjects s) + length its]
      in s\<lparr>shipmentObjects := shipmentObjects s @ shipmentItems,
            shipments := (shipments s)(k \<mapsto> addrs),
            tasks := tasks s @ map ShipDelay addrs\<rparr>)"

definition publishOrderReadyForShipping :: "string \<Rightarrow> OrderItem list \<Rightarrow> system \<Rightarrow> system" where
  "publishOrderReadyForShipping k its s =
     handleOrderReadyForShipping k its (record_event (OrderReadyForShipping k its) s)"

text \<open>\<open>processShipment\<close> after its first timer, and after its second.\<close>

definition shipItem :: "nat \<Rightarrow> system \<Rightarrow> system" where
  "shipItem a s =
     (let item = (shipmentObjects s ! a)\<lparr>ShipmentItem.status := Shipped\<rparr>;
          s1 = s\<lparr>shipmentObjects := (shipmentObjects s)[a := item]\<rparr>;
          s2 = record_event (ItemShipped (orderId item) (productId item) (quantity item)) s1
      in s2\<lparr>tasks := tasks s2 @ [DeliverDelay a]\<rparr>)"

definition deliverItem :: "nat \<Rightarrow> system \<Rightarrow> system" where
  "deliverItem a s =
     (let item = (shipmentObjects s ! a)\<lparr>ShipmentItem.status := Delivered\<rparr>;
          s1 = s\<lparr>shipmentObjects := (shipmentObjects s)[a := item]\<rparr>
      in record_event (ItemDelivered (orderId item) (productId item) (quantity item)) s1)"

definition getShipments :: "string \<Rightarrow> system \<Rightarrow> ShipmentItem list option" where
  "getShipments k s = map_option (map (\<lambda>a. shipmentObjects s ! a)) (shipments s k)"

section \<open>Order saga (orderService.ts)\<close>

definition isOrderComplete :: "Order \<Rightarrow> bool" where
  "isOrderComplete order =
     (let totalItemsProcessed = length (fulfillableItems order) + length (unfulfillableItems order)
      in totalItemsProcessed = length (items order))"

definition updateOrderStatus :: "string \<Rightarrow> OrderStatus \<Rightarrow> system \<Rightarrow> system" where
  "updateOrderStatus k st s =
     (case orders s k of
        None \<Rightarrow> s
      | Some order \<Rightarrow> s\<lparr>orders := (orders s)(k \<mapsto> order\<lparr>status := st\<rparr>)\<rparr>)"

definition getOrder :: "string \<Rightarrow> system \<Rightarrow> Order option" where
  "getOrder k s = orders s k"

text \<open>
  \<open>handleStockReserved\<close>. The order object is mutated in place, so the map entry is
  written back after the push; the event carries the fulfillable list as it is then,
  and the status is chosen from the unfulfillable list, which the publish leaves alone.
\<close>

definition handleStockReserved :: "string \<Rightarrow> OrderItem list \<Rightarrow> system \<Rightarrow> system" where
  "handleStockReserved k its s =
     (case orders s k of
        None \<Rightarrow> s
      | Some order0 \<Rightarrow>
          (let order = order0\<lparr>fulfillableItems := fulfillableItems order0 @ its\<rparr>;
               s1 = s\<lparr>orders := (orders s)(k \<mapsto> order)\<rparr>
           in if isOrderComplete order
              then updateOrderStatus (order_id order)
                     (if length (unfulfillableItems order) > 0 then Partial else Fulfilled)
                     (publishOrderReadyForShipping (order_id order) (fulfillableItems order) s1)
              else s1))"

definition handleOutOfStock :: "string \<Rightarrow> string \<Rightarrow> int \<Rightarrow> int \<Rightarrow> system \<Rightarrow> system" where
  "handleOutOfStock k pid requestedQuantity availableQuantity s =
     (case orders s k of
        None \<Rightarrow> s
      | Some order0 \<Rightarrow>
          (let unfulfillableItem =
                 \<lparr>productId = pid, quantity = requestedQuantity - availableQuantity\<rparr>;
               order1 = order0\<lparr>unfulfillableItems := unfulfillableItems order0 @ [unfulfillableItem]\<rparr>;
               order = (if availableQuantity > 0
                        then order1\<lparr>fulfillableItems := fulfillableItems order1 @
                                       [\<lparr>productId = pid, quantity = availableQuantity\<rparr>]\<rparr>
                        else order1);
               s1 = s\<lparr>orders := (orders s)(k \<mapsto> order)\<rparr>
           in if isOrderComplete order
              then updateOrderStatus (order_id order)
                     (if length (fulfillableItems order) > 0 then Partial else Cancelled)
                     (if length (fulfillableItems order) > 0
                      then publishOrderReadyForShipping (order_id order) (fulfillableItems order) s1
                      else s1)
              else s1))"

definition publishStockReserved :: "string \<Rightarrow> OrderItem list \<Rightarrow> system \<Rightarrow> system" where
  "publishStockReserved k its s = handleStockReserved k its (record_event (StockReserved k its) s)"

definition publishOutOfStock :: "string \<Rightarrow> string \<Rightarrow> int \<Rightarrow> int \<Rightarrow> system \<Rightarrow> system" where
  "publishOutOfStock k pid requestedQuantity availableQuantity s =
     handleOutOfStock k pid requestedQuantity availableQuantity
       (record_event (OutOfStock k pid requestedQuantity availableQuantity) s)"

section \<open>Inventory ledger (inventoryService.ts)\<close>

definition addInventory :: "string \<Rightarrow> int \<Rightarrow> system \<Rightarrow> system" where
  "addInventory pid q s =
     (case inventory s pid of
        Some existingItem \<Rightarrow>
          s\<lparr>inventory := (inventory s)(pid \<mapsto> existingItem\<lparr>quantity := quantity existingItem + q\<rparr>)\<rparr>
      | None \<Rightarrow>
          s\<lparr>inventory := (inventory s)(pid \<mapsto> \<lparr>productId = pid, quantity = q, reserved = 0\<rparr>)\<rparr>)"

definition getInventory :: "string \<Rightarrow> system \<Rightarrow> InventoryItem option" where
  "getInventory pid s = inventory s pid"

definition releaseStock :: "string \<Rightarrow> int \<Rightarrow> system \<Rightarrow> system" where
  "releaseStock pid q s =
     (case inventory s pid of
        None \<Rightarrow> s
      | Some item \<Rightarrow>
          if reserved item \<ge> q
          then s\<lparr>inventory := (inventory s)(pid \<mapsto> item\<lparr>reserved := reserved item - q\<rparr>)\<rparr>
          else s)"

text \<open>
  \<open>tryReserveStock\<close>. The result \<open>None\<close> is the call suspended in its polling loop
  (the lock flag was set: wait 10 ms and test again); \<open>Some (success,
  availableQuantity)\<close> is the returned object. From the test of the flag to the
  \<open>finally\<close> there is no \<open>await\<close>, so that part is one step; the \<open>finally\<close> clears the
  flag on each of the three returns.
\<close>

definition tryReserveStock :: "string \<Rightarrow> int \<Rightarrow> system \<Rightarrow> (bool \<times> int) option \<times> system" where
  "tryReserveStock pid q s =
     (if lockMap s pid = Some True then (None, s)
      else
        (let s1 = s\<lparr>lockMap := (lockMap s)(pid \<mapsto> True)\<rparr>
         in case inventory s1 pid of
              None \<Rightarrow> (Some (False, 0), s1\<lparr>lockMap := (lockMap s1)(pid \<mapsto> False)\<rparr>)
            | Some item \<Rightarrow>
                (let availableQuantity = quantity item - reserved item
                 in if availableQuantity \<ge> q
                    then (Some (True, availableQuantity),
                          s1\<lparr>inventory := (inventory s1)(pid \<mapsto> item\<lparr>reserved := reserved item + q\<rparr>),
                             lockMap := (lockMap s1)(pid \<mapsto> False)\<rparr>)
                    else (Some (False, availableQuantity),
                          s1\<lparr>lockMap := (lockMap s1)(pid \<mapsto> False)\<rparr>))))"

text \<open>
  \<open>handleOrderPlaced\<close>, cut at its suspension points.
  \<open>placedLoop\<close> is the head of the \<open>for\<close> loop: with a line left it suspends at the
  pacing timer; with none left it runs the code after the loop, which publishes one
  \<open>StockReserved\<close> when \<open>reservations\<close> is not empty.
\<close>

fun placedLoop :: "string \<Rightarrow> OrderItem list \<Rightarrow> OrderItem list \<Rightarrow> system \<Rightarrow> system" where
  "placedLoop k [] reservations s =
     (if length reservations > 0 then publishStockReserved k reservations s else s)"
| "placedLoop k (item # rest) reservations s =
     s\<lparr>tasks := tasks s @ [PlacedDelay k item rest reservations]\<rparr>"

definition handleOrderPlaced :: "string \<Rightarrow> OrderItem list \<Rightarrow> system \<Rightarrow> system" where
  "handleOrderPlaced k its s = placedLoop k its [] s"

text \<open>The call of \<open>tryReserveStock\<close> for the line of this iteration, or its next poll.\<close>

definition placedReserve :: "string \<Rightarrow> OrderItem \<Rightarrow> OrderItem list \<Rightarrow> OrderItem list \<Rightarrow> system \<Rightarrow> system" where
  "placedReserve k item rest reservations s =
     (case tryReserveStock (productId item) (quantity item) s of
        (None, s1) \<Rightarrow> s1\<lparr>tasks := tasks s1 @ [PlacedLock k item rest reservations]\<rparr>
      | (Some (success, availableQuantity), s1) \<Rightarrow>
          s1\<lparr>tasks := tasks s1 @ [PlacedResult k item rest reservations success availableQuantity],
             attempts := attempts s1 @ [(k, item, success, availableQuantity)]\<rparr>)"

text \<open>
  The rest of the loop body, given the result of the reservation: the line joins
  \<open>reservations\<close>, or \<open>OutOfStock\<close> is published for it. Nothing in the \<open>try\<close> block
  throws, so the \<open>catch\<close> has no branch here.
\<close>

definition placedOutcome :: "string \<Rightarrow> OrderItem \<Rightarrow> OrderItem list \<Rightarrow> bool \<Rightarrow> int \<Rightarrow> system
    \<Rightarrow> OrderItem list \<times> system" where
  "placedOutcome k item reservations success availableQuantity s =
     (if success
      then (reservations @ [\<lparr>productId = productId item, quantity = quantity item\<rparr>], s)
      else (reservations, publishOutOfStock k (productId item) (quantity item) availableQuantity s))"

definition placedResult :: "string \<Rightarrow> OrderItem \<Rightarrow> OrderItem list \<Rightarrow> OrderItem list \<Rightarrow> bool \<Rightarrow> int
    \<Rightarrow> system \<Rightarrow> system" where
  "placedResult k item rest reservations success availableQuantity s =
     (case placedOutcome k item reservations success availableQuantity s of
        (reservations1, s1) \<Rightarrow> placedLoop k rest reservations1 s1)"

definition publishOrderPlaced :: "string \<Rightarrow> OrderItem list \<Rightarrow> system \<Rightarrow> system" where
  "publishOrderPlaced k its s = handleOrderPlaced k its (record_event (OrderPlaced k its) s)"

section \<open>Creating an order\<close>

text \<open>
  \<open>createOrder\<close>; \<open>uuid\<close> is the value \<open>uuidv4()\<close> returned. The function returns the
  object it stored, so the caller reads the fields as they are at the return: the
  entry of the map. (The map always has that entry then; the other branch of the
  \<open>case\<close> returns the object as first built.)
\<close>

definition createOrder :: "string \<Rightarrow> OrderItem list \<Rightarrow> system \<Rightarrow> Order \<times> system" where
  "createOrder uuid its s =
     (let order = \<lparr>order_id = uuid, items = its, status = Pending,
                   fulfillableItems = [], unfulfillableItems = []\<rparr>;
          s1 = s\<lparr>orders := (orders s)(order_id order \<mapsto> order)\<rparr>;
          s2 = publishOrderPlaced (order_id order) (items order) s1;
          s3 = updateOrderStatus (order_id order) Processing s2
      in case orders s3 (order_id order) of
           Some stored \<Rightarrow> (stored, s3)
         | None \<Rightarrow> (order, s3))"

section \<open>The process: start state, scheduler, runs\<close>

definition empty_system :: system where
  "empty_system = \<lparr>inventory = Map.empty, lockMap = Map.empty, orders = Map.empty,
     shipments = Map.empty, shipmentObjects = [], tasks = [], published = [], attempts = []\<rparr>"

definition initializeInventory :: "system \<Rightarrow> system" where
  "initializeInventory s =
     addInventory ''PROD-3'' 15 (addInventory ''PROD-2'' 5 (addInventory ''PROD-1'' 10 s))"

text \<open>The state after the three constructors have run.\<close>

definition init :: system where
  "init = initializeInventory empty_system"

text \<open>One suspended call runs from its suspension point to its next one, or to its end.\<close>

fun run_task :: "task \<Rightarrow> system \<Rightarrow> system" where
  "run_task (PlacedDelay k item rest reservations) s = placedReserve k item rest reservations s"
| "run_task (PlacedLock k item rest reservations) s = placedReserve k item rest reservations s"
| "run_task (PlacedResult k item rest reservations success availableQuantity) s =
     placedResult k item rest reservations success availableQuantity s"
| "run_task (ShipDelay a) s = shipItem a s"
| "run_task (DeliverDelay a) s = deliverItem a s"

text \<open>
  What can happen next: a call of the public interface, or the event loop resuming the
  \<open>n\<close>-th suspended call. The timers are random, so any suspended call may be next.
\<close>

datatype action =
    CreateOrder string "OrderItem list"
  | AddInventory string int
  | ReleaseStock string int
  | Resume nat

definition resume :: "nat \<Rightarrow> system \<Rightarrow> system" where
  "resume n s =
     (if n < length (tasks s)
      then run_task (tasks s ! n) (s\<lparr>tasks := take n (tasks s) @ drop (Suc n) (tasks s)\<rparr>)
      else s)"

fun step :: "action \<Rightarrow> system \<Rightarrow> system" where
  "step (CreateOrder uuid its) s = snd (createOrder uuid its s)"
| "step (AddInventory pid q) s = addInventory pid q s"
| "step (ReleaseStock pid q) s = releaseStock pid q s"
| "step (Resume n) s = resume n s"

fun exec :: "action list \<Rightarrow> system \<Rightarrow> system" where
  "exec [] s = s"
| "exec (a # as) s = exec as (step a s)"

text \<open>\<open>uuidv4\<close> never returns an id that is already a key of the order map.\<close>

fun fresh_id :: "action \<Rightarrow> system \<Rightarrow> bool" where
  "fresh_id (CreateOrder uuid its) s = (orders s uuid = None)"
| "fresh_id (AddInventory pid q) s = True"
| "fresh_id (ReleaseStock pid q) s = True"
| "fresh_id (Resume n) s = True"

fun fresh_ids :: "action list \<Rightarrow> system \<Rightarrow> bool" where
  "fresh_ids [] s = True"
| "fresh_ids (a # as) s = (fresh_id a s \<and> fresh_ids as (step a s))"

text \<open>No quantity a caller passes in is negative.\<close>

definition nonneg_line :: "OrderItem \<Rightarrow> bool" where
  "nonneg_line item = (0 \<le> quantity item)"


fun terminal :: "OrderStatus \<Rightarrow> bool" where
  "terminal Partial = True"
| "terminal Fulfilled = True"
| "terminal Cancelled = True"
| "terminal Pending = False"
| "terminal Processing = False"

section \<open>Observations used in the statements\<close>

text \<open>The order a suspended \<open>handleOrderPlaced\<close> call works for.\<close>

fun task_order :: "task \<Rightarrow> string option" where
  "task_order (PlacedDelay k item rest reservations) = Some k"
| "task_order (PlacedLock k item rest reservations) = Some k"
| "task_order (PlacedResult k item rest reservations success availableQuantity) = Some k"
| "task_order (ShipDelay a) = None"
| "task_order (DeliverDelay a) = None"

definition placed_for :: "string \<Rightarrow> task list \<Rightarrow> task list" where
  "placed_for k ts = filter (\<lambda>t. task_order t = Some k) ts"

text \<open>The events the order saga receives for order \<open>k\<close>, in the order of their publication.\<close>

fun saga_event :: "string \<Rightarrow> event \<Rightarrow> bool" where
  "saga_event k (StockReserved k' its) = (k' = k)"
| "saga_event k (OutOfStock k' pid requestedQuantity availableQuantity) = (k' = k)"
| "saga_event k (OrderPlaced k' its) = False"
| "saga_event k (OrderReadyForShipping k' its) = False"
| "saga_event k (ItemShipped k' pid q) = False"
| "saga_event k (ItemDelivered k' pid q) = False"

definition saga_events :: "string \<Rightarrow> system \<Rightarrow> event list" where
  "saga_events k s = filter (saga_event k) (published s)"

text \<open>Predicates of the inventory ledger's invariant.\<close>

definition lock_free :: "system \<Rightarrow> bool" where
  "lock_free s = (\<forall>pid. lockMap s pid \<noteq> Some True)"

definition stock_ok :: "system \<Rightarrow> bool" where
  "stock_ok s = (\<forall>pid item. inventory s pid = Some item \<longrightarrow>
                   0 \<le> reserved item \<and> reserved item \<le> quantity item)"

fun task_nonneg :: "task \<Rightarrow> bool" where
  "task_nonneg (PlacedDelay k item rest reservations) = list_all nonneg_line (item # rest)"
| "task_nonneg (PlacedLock k item rest reservations) = list_all nonneg_line (item # rest)"
| "task_nonneg (PlacedResult k item rest reservations success availableQuantity) =
     list_all nonneg_line rest"
| "task_nonneg (ShipDelay a) = True"
| "task_nonneg (DeliverDelay a) = True"


text \<open>
  Scenario B of the tests: one order for 7 of PROD-2 (5 in stock) and 3 of PROD-3 (15 in
  stock), run until no suspended call is left. After the second \<open>Resume\<close> the suspended
  calls are the shipment of the first line and the reservation of the second.
\<close>

definition scenarioB :: "action list" where
  "scenarioB =
     [CreateOrder ''order-B'' [\<lparr>productId = ''PROD-2'', quantity = 7\<rparr>,
                                \<lparr>productId = ''PROD-3'', quantity = 3\<rparr>],
      Resume 0, Resume 0, Resume 1, Resume 1, Resume 0, Resume 0]"


text \<open>
  Predicates of the order saga's invariant: an order is stored under its own id; a
  terminal order has at least as many outcome lines as requested lines. \<open>stable s s'\<close>:
  every order that is terminal in \<open>s\<close> has the same status in \<open>s'\<close>.
\<close>

definition keys_ok :: "system \<Rightarrow> bool" where
  "keys_ok s = (\<forall>k order. orders s k = Some order \<longrightarrow> order_id order = k)"

definition count_ok :: "system \<Rightarrow> bool" where
  "count_ok s = (\<forall>k order. orders s k = Some order \<longrightarrow> terminal (status order) \<longrightarrow>
     length (items order) \<le> length (fulfillableItems order) + length (unfulfillableItems order))"

definition saga_ok :: "system \<Rightarrow> bool" where
  "saga_ok s = (keys_ok s \<and> count_ok s)"

definition stable :: "system \<Rightarrow> system \<Rightarrow> bool" where
  "stable s s' = (\<forall>k order. orders s k = Some order \<longrightarrow> terminal (status order) \<longrightarrow>
     (\<exists>order'. orders s' k = Some order' \<and> status order' = status order))"

text \<open>
  The history of one order. \<open>attempts_of k s\<close>: the reservation attempts made for
  order \<open>k\<close>, in order, each with its line, its success flag and its
  availableQuantity. \<open>granted A\<close>: the objects pushed on \<open>reservations\<close> for the
  successful attempts of \<open>A\<close>. \<open>refused k A\<close>: the \<open>OutOfStock\<close> events of the failed
  attempts of \<open>A\<close>; it holds \<open>OutOfStock\<close> events only.
\<close>

definition attempts_of :: "string \<Rightarrow> system \<Rightarrow> (OrderItem \<times> bool \<times> int) list" where
  "attempts_of k s = map snd (filter (\<lambda>a. fst a = k) (attempts s))"

definition granted :: "(OrderItem \<times> bool \<times> int) list \<Rightarrow> OrderItem list" where
  "granted A =
     map (\<lambda>a. \<lparr>productId = productId (fst a), quantity = quantity (fst a)\<rparr>)
       (filter (\<lambda>a. fst (snd a)) A)"

definition refused :: "string \<Rightarrow> (OrderItem \<times> bool \<times> int) list \<Rightarrow> event list" where
  "refused k A =
     map (\<lambda>a. OutOfStock k (productId (fst a)) (quantity (fst a)) (snd (snd a)))
       (filter (\<lambda>a. \<not> fst (snd a)) A)"

text \<open>
  The invariant of \<open>handleOrderPlaced\<close> for one order with requested lines \<open>its\<close>,
  attempts \<open>A\<close> and saga events \<open>P\<close>, by the suspended calls \<open>ts\<close> that work for the
  order: none (the call has ended, or the order had no line), or exactly one.
\<close>

fun progress :: "string \<Rightarrow> OrderItem list \<Rightarrow> (OrderItem \<times> bool \<times> int) list \<Rightarrow> event list
    \<Rightarrow> task list \<Rightarrow> bool" where
  "progress k its A P [] =
     (map fst A = its \<and>
      P = refused k A @ (if granted A = [] then [] else [StockReserved k (granted A)]))"
| "progress k its A P [PlacedDelay k' item rest reservations] =
     (map fst A @ item # rest = its \<and> reservations = granted A \<and> P = refused k A)"
| "progress k its A P [PlacedLock k' item rest reservations] =
     (map fst A @ item # rest = its \<and> reservations = granted A \<and> P = refused k A)"
| "progress k its A P [PlacedResult k' item rest reservations success availableQuantity] =
     (A \<noteq> [] \<and> last A = (item, success, availableQuantity) \<and> map fst A @ rest = its \<and>
      reservations = granted (butlast A) \<and> P = refused k (butlast A))"
| "progress k its A P ts = False"

definition prog :: "string \<Rightarrow> system \<Rightarrow> bool" where
  "prog k s =
     (case orders s k of
        None \<Rightarrow> placed_for k (tasks s) = [] \<and> attempts_of k s = [] \<and> saga_events k s = []
      | Some order \<Rightarrow>
          progress k (items order) (attempts_of k s) (saga_events k s) (placed_for k (tasks s)))"

section \<open>Field-wise effect of the operations\<close>

lemma init_fields:
  "inventory init = [''PROD-1'' \<mapsto> \<lparr>productId = ''PROD-1'', quantity = 10, reserved = 0\<rparr>,
                     ''PROD-2'' \<mapsto> \<lparr>productId = ''PROD-2'', quantity = 5, reserved = 0\<rparr>,
                     ''PROD-3'' \<mapsto> \<lparr>productId = ''PROD-3'', quantity = 15, reserved = 0\<rparr>]"
  "lockMap init = Map.empty"
  "orders init = Map.empty"
  "shipments init = Map.empty"
  "shipmentObjects init = []"
  "tasks init = []"
  "published init = []"
  "attempts init = []"
  by (simp_all add: init_def initializeInventory_def addInventory_def empty_system_def)

lemma record_event_fields [simp]:
  "inventory (record_event e s) = inventory s"
  "lockMap (record_event e s) = lockMap s"
  "orders (record_event e s) = orders s"
  "shipments (record_event e s) = shipments s"
  "shipmentObjects (record_event e s) = shipmentObjects s"
  "tasks (record_event e s) = tasks s"
  "attempts (record_event e s) = attempts s"
  "published (record_event e s) = published s @ [e]"
  by (simp_all add: record_event_def)

lemma updateOrderStatus_fields [simp]:
  "inventory (updateOrderStatus k st s) = inventory s"
  "lockMap (updateOrderStatus k st s) = lockMap s"
  "shipments (updateOrderStatus k st s) = shipments s"
  "shipmentObjects (updateOrderStatus k st s) = shipmentObjects s"
  "tasks (updateOrderStatus k st s) = tasks s"
  "attempts (updateOrderStatus k st s) = attempts s"
  "published (updateOrderStatus k st s) = published s"
  by (simp_all add: updateOrderStatus_def split: option.splits)

lemma orders_updateOrderStatus:
  "orders (updateOrderStatus k st s) k' =
     (if k' = k then map_option (\<lambda>order. order\<lparr>status := st\<rparr>) (orders s k) else orders s k')"
  by (simp add: updateOrderStatus_def split: option.splits)

lemma publishOrderReadyForShipping_fields [simp]:
  "inventory (publishOrderReadyForShipping k its s) = inventory s"
  "lockMap (publishOrderReadyForShipping k its s) = lockMap s"
  "orders (publishOrderReadyForShipping k its s) = orders s"
  "attempts (publishOrderReadyForShipping k its s) = attempts s"
  "published (publishOrderReadyForShipping k its s) = published s @ [OrderReadyForShipping k its]"
  by (simp_all add: publishOrderReadyForShipping_def handleOrderReadyForShipping_def Let_def)

lemma tasks_publishOrderReadyForShipping:
  "tasks (publishOrderReadyForShipping k its s) =
     tasks s @ map ShipDelay [length (shipmentObjects s) ..< length (shipmentObjects s) + length its]"
  by (simp add: publishOrderReadyForShipping_def handleOrderReadyForShipping_def Let_def)

lemma placed_for_Nil [simp]: "placed_for k [] = []"
  by (simp add: placed_for_def)

lemma placed_for_Cons [simp]:
  "placed_for k (t # ts) = (if task_order t = Some k then t # placed_for k ts else placed_for k ts)"
  by (simp add: placed_for_def)

lemma placed_for_append [simp]: "placed_for k (ts @ us) = placed_for k ts @ placed_for k us"
  by (simp add: placed_for_def)

lemma placed_for_ShipDelay [simp]: "placed_for k (map ShipDelay addrs) = []"
  by (induction addrs) simp_all

lemma placed_for_publishOrderReadyForShipping [simp]:
  "placed_for k' (tasks (publishOrderReadyForShipping k its s)) = placed_for k' (tasks s)"
  by (simp add: tasks_publishOrderReadyForShipping)

text \<open>What the two saga handlers leave alone.\<close>

lemma handleStockReserved_fields [simp]:
  "inventory (handleStockReserved k its s) = inventory s"
  "lockMap (handleStockReserved k its s) = lockMap s"
  "attempts (handleStockReserved k its s) = attempts s"
  "placed_for k' (tasks (handleStockReserved k its s)) = placed_for k' (tasks s)"
  "saga_events k' (handleStockReserved k its s) = saga_events k' s"
  by (simp_all add: handleStockReserved_def Let_def saga_events_def split: option.splits)

lemma handleOutOfStock_fields [simp]:
  "inventory (handleOutOfStock k pid r a s) = inventory s"
  "lockMap (handleOutOfStock k pid r a s) = lockMap s"
  "attempts (handleOutOfStock k pid r a s) = attempts s"
  "placed_for k' (tasks (handleOutOfStock k pid r a s)) = placed_for k' (tasks s)"
  "saga_events k' (handleOutOfStock k pid r a s) = saga_events k' s"
  by (simp_all add: handleOutOfStock_def Let_def saga_events_def split: option.splits)

lemma handleStockReserved_items:
  "map_option items (orders (handleStockReserved k its s) k') = map_option items (orders s k')"
  by (simp add: handleStockReserved_def Let_def orders_updateOrderStatus option.map_comp comp_def
      split: option.splits)

lemma handleOutOfStock_items:
  "map_option items (orders (handleOutOfStock k pid r a s) k') = map_option items (orders s k')"
  by (simp add: handleOutOfStock_def Let_def orders_updateOrderStatus option.map_comp comp_def
      split: option.splits)

lemma createOrder_orders:
  "orders (snd (createOrder uuid its s)) =
     (orders s)(uuid \<mapsto> \<lparr>order_id = uuid, items = its, status = Processing,
                          fulfillableItems = [], unfulfillableItems = []\<rparr>)"
  by (cases its) (auto simp add: createOrder_def Let_def publishOrderPlaced_def handleOrderPlaced_def
      orders_updateOrderStatus updateOrderStatus_def)

section \<open>The reservation step\<close>



section \<open>The saga's handling of one event\<close>



section \<open>What the caller of createOrder gets\<close>

text \<open>
  Claim C8. For every items list (and every state of the three services, so whatever
  the reservations will give), the order \<open>createOrder\<close> returns has status
  \<open>processing\<close>, carries the assigned id and the given items, and is what \<open>getOrder\<close>
  returns under that id.
\<close>

theorem createOrder_processing:
  "case createOrder uuid its s of (order, s') \<Rightarrow>
     status order = Processing \<and> order_id order = uuid \<and> items order = its \<and>
     getOrder (order_id order) s' = Some order"
  by (cases its) (simp_all add: createOrder_def Let_def publishOrderPlaced_def handleOrderPlaced_def
      updateOrderStatus_def getOrder_def)

section \<open>Runs of the process\<close>

lemma exec_append: "exec (as @ bs) s = exec bs (exec as s)"
  by (induction as arbitrary: s) simp_all

lemma fresh_ids_append: "fresh_ids (as @ bs) s = (fresh_ids as s \<and> fresh_ids bs (exec as s))"
  by (induction as arbitrary: s) simp_all

lemma task_nonneg_ShipDelay [simp]: "list_all task_nonneg (map ShipDelay addrs)"
  by (induction addrs) simp_all

lemma task_nonneg_publishOrderReadyForShipping [simp]:
  "list_all task_nonneg (tasks (publishOrderReadyForShipping k its s)) = list_all task_nonneg (tasks s)"
  by (simp add: tasks_publishOrderReadyForShipping)

lemma handlers_task_nonneg [simp]:
  "list_all task_nonneg (tasks (handleStockReserved k its s)) = list_all task_nonneg (tasks s)"
  "list_all task_nonneg (tasks (handleOutOfStock k pid r a s)) = list_all task_nonneg (tasks s)"
  by (simp_all add: handleStockReserved_def handleOutOfStock_def Let_def split: option.splits)

text \<open>The inventory side of every operation.\<close>

lemma placedLoop_ledger [simp]:
  "inventory (placedLoop k rest reservations s) = inventory s"
  "lockMap (placedLoop k rest reservations s) = lockMap s"
  "attempts (placedLoop k rest reservations s) = attempts s"
  by (cases rest; simp add: publishStockReserved_def)+


lemma placedResult_ledger [simp]:
  "inventory (placedResult k item rest reservations success av s) = inventory s"
  "lockMap (placedResult k item rest reservations success av s) = lockMap s"
  "attempts (placedResult k item rest reservations success av s) = attempts s"
  by (simp_all add: placedResult_def placedOutcome_def publishOutOfStock_def)


lemma ship_ledger [simp]:
  "inventory (shipItem a s) = inventory s"
  "lockMap (shipItem a s) = lockMap s"
  "inventory (deliverItem a s) = inventory s"
  "lockMap (deliverItem a s) = lockMap s"
  by (simp_all add: shipItem_def deliverItem_def Let_def)

lemma ship_task_nonneg [simp]:
  "list_all task_nonneg (tasks (shipItem a s)) = list_all task_nonneg (tasks s)"
  "list_all task_nonneg (tasks (deliverItem a s)) = list_all task_nonneg (tasks s)"
  by (simp_all add: shipItem_def deliverItem_def Let_def)

lemma createOrder_ledger [simp]:
  "inventory (snd (createOrder uuid its s)) = inventory s"
  "lockMap (snd (createOrder uuid its s)) = lockMap s"
  by (simp_all add: createOrder_def Let_def publishOrderPlaced_def handleOrderPlaced_def
      split: option.splits)


lemma lockMap_tryReserveStock:
  "lockMap (snd (tryReserveStock pid q s)) =
     (if lockMap s pid = Some True then lockMap s else (lockMap s)(pid \<mapsto> False))"
  by (simp add: tryReserveStock_def Let_def split: option.splits)

lemma lockMap_placedReserve:
  "lockMap (placedReserve k item rest reservations s) =
     (if lockMap s (productId item) = Some True then lockMap s
      else (lockMap s)(productId item \<mapsto> False))"
  by (simp add: placedReserve_def tryReserveStock_def Let_def split: option.splits)

lemma lock_free_run_task: "lock_free s \<Longrightarrow> lock_free (run_task t s)"
  by (cases t) (simp_all add: lock_free_def lockMap_placedReserve)

lemma lock_free_step: "lock_free s \<Longrightarrow> lock_free (step a s)"
proof (cases a)
  case (Resume n)
  assume "lock_free s"
  then have "lock_free (s\<lparr>tasks := take n (tasks s) @ drop (Suc n) (tasks s)\<rparr>)"
    by (simp add: lock_free_def)
  then show ?thesis
    using \<open>lock_free s\<close> Resume by (simp add: resume_def lock_free_run_task)
qed (simp_all add: lock_free_def addInventory_def releaseStock_def split: option.splits)

lemma lock_free_exec: "lock_free s \<Longrightarrow> lock_free (exec as s)"
  by (induction as arbitrary: s) (simp_all add: lock_free_step)

lemma lock_free_init: "lock_free init"
  by (simp add: lock_free_def init_fields)

text \<open>No state the process reaches has a lock flag set: no call ever waits for a lock.\<close>

lemma lock_never_held: "lockMap (exec as init) pid \<noteq> Some True"
  using lock_free_exec [OF lock_free_init, of as] by (simp add: lock_free_def)




lemma tasks_tryReserveStock [simp]:
  "tasks (snd (tryReserveStock pid q s)) = tasks s"
  "orders (snd (tryReserveStock pid q s)) = orders s"
  "published (snd (tryReserveStock pid q s)) = published s"
  "attempts (snd (tryReserveStock pid q s)) = attempts s"
  by (simp_all add: tryReserveStock_def Let_def split: option.splits)


lemma stock_ok_tasks_update [simp]: "stock_ok (s\<lparr>tasks := ts\<rparr>) = stock_ok s"
  by (simp add: stock_ok_def)






section \<open>No oversell\<close>




section \<open>A line for a product without a record\<close>



section \<open>Scenario B\<close>

text \<open>
  Claim C3 against the code. The run of scenario B ends with no suspended call left,
  the order \<open>partial\<close>, 5 of PROD-2 and 3 of PROD-3 fulfillable and 2 of PROD-2
  unfulfillable; but the shipment tracker holds one line only, 5 of PROD-2. The
  \<open>OutOfStock\<close> event of the first line adds one line to each list, the completion
  check finds 2 = 2 and publishes \<open>OrderReadyForShipping\<close> with the first line alone;
  the later \<open>StockReserved\<close> event makes the count 3, and nothing more is shipped.
  PROD-2 is never reserved.
\<close>

theorem scenario_B_run:
  "tasks (exec scenarioB init) = [] \<and>
   getOrder ''order-B'' (exec scenarioB init) =
     Some \<lparr>order_id = ''order-B'',
            items = [\<lparr>productId = ''PROD-2'', quantity = 7\<rparr>, \<lparr>productId = ''PROD-3'', quantity = 3\<rparr>],
            status = Partial,
            fulfillableItems = [\<lparr>productId = ''PROD-2'', quantity = 5\<rparr>,
                                \<lparr>productId = ''PROD-3'', quantity = 3\<rparr>],
            unfulfillableItems = [\<lparr>productId = ''PROD-2'', quantity = 2\<rparr>]\<rparr> \<and>
   getShipments ''order-B'' (exec scenarioB init) =
     Some [\<lparr>productId = ''PROD-2'', quantity = 5, orderId = ''order-B'', status = Delivered\<rparr>] \<and>
   map_option reserved (getInventory ''PROD-2'' (exec scenarioB init)) = Some 0"
  by code_simp

section \<open>The saga's invariant\<close>

lemma orders_handleStockReserved:
  assumes "orders s k = Some order0" and "order_id order0 = k"
  shows "orders (handleStockReserved k its s) =
     (orders s)(k \<mapsto>
        (if length (fulfillableItems order0 @ its) + length (unfulfillableItems order0) = length (items order0)
         then order0\<lparr>fulfillableItems := fulfillableItems order0 @ its,
                     status := (if unfulfillableItems order0 \<noteq> [] then Partial else Fulfilled)\<rparr>
         else order0\<lparr>fulfillableItems := fulfillableItems order0 @ its\<rparr>))"
  using assms
  by (auto simp add: handleStockReserved_def Let_def isOrderComplete_def updateOrderStatus_def)

lemma orders_handleOutOfStock:
  assumes "orders s k = Some order0" and "order_id order0 = k"
  shows "orders (handleOutOfStock k pid r a s) =
     (orders s)(k \<mapsto>
        (let order = (if a > 0
                      then order0\<lparr>unfulfillableItems := unfulfillableItems order0 @ [\<lparr>productId = pid, quantity = r - a\<rparr>],
                                  fulfillableItems := fulfillableItems order0 @ [\<lparr>productId = pid, quantity = a\<rparr>]\<rparr>
                      else order0\<lparr>unfulfillableItems := unfulfillableItems order0 @ [\<lparr>productId = pid, quantity = r - a\<rparr>]\<rparr>)
         in if length (fulfillableItems order) + length (unfulfillableItems order) = length (items order)
            then order\<lparr>status := (if fulfillableItems order \<noteq> [] then Partial else Cancelled)\<rparr>
            else order))"
  using assms
  by (auto simp add: handleOutOfStock_def Let_def isOrderComplete_def updateOrderStatus_def)

lemma handlers_unknown_order:
  "orders s k = None \<Longrightarrow> handleStockReserved k its s = s"
  "orders s k = None \<Longrightarrow> handleOutOfStock k pid r a s = s"
  by (simp_all add: handleStockReserved_def handleOutOfStock_def)

lemma stable_refl: "orders s' = orders s \<Longrightarrow> stable s s'"
  by (simp add: stable_def)

lemma stable_trans: "stable s s' \<Longrightarrow> stable s' s'' \<Longrightarrow> stable s s''"
  by (fastforce simp add: stable_def)

lemma saga_update:
  assumes "saga_ok s" and "orders s k = Some order0" and "orders s' = (orders s)(k \<mapsto> order1)"
    and "order_id order1 = k"
    and "terminal (status order1) \<longrightarrow>
           length (items order1) \<le> length (fulfillableItems order1) + length (unfulfillableItems order1)"
    and "terminal (status order0) \<longrightarrow> status order1 = status order0"
  shows "saga_ok s' \<and> stable s s'"
proof -
  have "keys_ok s'"
    using assms(1,3,4) by (simp add: saga_ok_def keys_ok_def)
  moreover have "count_ok s'"
    using assms(1,3,5) by (simp add: saga_ok_def count_ok_def)
  moreover have "stable s s'"
    using assms(2,3,6) by (simp add: stable_def)
  ultimately show ?thesis by (simp add: saga_ok_def)
qed

lemma saga_handleStockReserved:
  assumes "saga_ok s" and "its \<noteq> []"
  shows "saga_ok (handleStockReserved k its s) \<and> stable s (handleStockReserved k its s)"
proof (cases "orders s k")
  case None
  then show ?thesis using assms by (simp add: handlers_unknown_order stable_def)
next
  case (Some order0)
  then have key: "order_id order0 = k" using assms(1) by (simp add: saga_ok_def keys_ok_def)
  have cnt: "terminal (status order0) \<longrightarrow>
      length (items order0) \<le> length (fulfillableItems order0) + length (unfulfillableItems order0)"
    using Some assms(1) by (simp add: saga_ok_def count_ok_def)
  obtain n where len: "length its = Suc n"
    using assms(2) by (cases its) simp_all
  show ?thesis
    by (rule saga_update [OF assms(1) Some orders_handleStockReserved [OF Some key]])
       (use key cnt len in auto)
qed

lemma saga_handleOutOfStock:
  assumes "saga_ok s"
  shows "saga_ok (handleOutOfStock k pid r a s) \<and> stable s (handleOutOfStock k pid r a s)"
proof (cases "orders s k")
  case None
  then show ?thesis using assms by (simp add: handlers_unknown_order stable_def)
next
  case (Some order0)
  then have key: "order_id order0 = k" using assms(1) by (simp add: saga_ok_def keys_ok_def)
  have cnt: "terminal (status order0) \<longrightarrow>
      length (items order0) \<le> length (fulfillableItems order0) + length (unfulfillableItems order0)"
    using Some assms(1) by (simp add: saga_ok_def count_ok_def)
  show ?thesis
    by (rule saga_update [OF assms Some orders_handleOutOfStock [OF Some key]])
       (use key cnt in \<open>auto simp add: Let_def\<close>)
qed


lemma saga_placedLoop:
  assumes "saga_ok s"
  shows "saga_ok (placedLoop k rest reservations s) \<and> stable s (placedLoop k rest reservations s)"
proof (cases rest)
  case Nil
  show ?thesis
  proof (cases "reservations = []")
    case True
    then show ?thesis using Nil assms by (simp add: stable_def)
  next
    case False
    have "saga_ok (record_event (StockReserved k reservations) s)"
      using assms by (simp add: saga_ok_def keys_ok_def count_ok_def)
    from saga_handleStockReserved [OF this False, of k] show ?thesis
      using Nil False by (simp add: publishStockReserved_def stable_def)
  qed
next
  case (Cons item rest')
  then show ?thesis
    using assms by (simp add: stable_def saga_ok_def keys_ok_def count_ok_def)
qed

lemma saga_placedResult:
  assumes "saga_ok s"
  shows "saga_ok (placedResult k item rest reservations success av s) \<and>
         stable s (placedResult k item rest reservations success av s)"
proof (cases success)
  case True
  then show ?thesis
    using saga_placedLoop [OF assms] by (simp add: placedResult_def placedOutcome_def)
next
  case False
  let ?s1 = "publishOutOfStock k (productId item) (quantity item) av s"
  have "saga_ok (record_event (OutOfStock k (productId item) (quantity item) av) s)"
    using assms by (simp add: saga_ok_def keys_ok_def count_ok_def)
  from saga_handleOutOfStock [OF this, of k "productId item" "quantity item" av]
  have 1: "saga_ok ?s1" and 2: "stable s ?s1"
    by (simp_all add: publishOutOfStock_def stable_def)
  from saga_placedLoop [OF 1, of k rest reservations]
  have "saga_ok (placedLoop k rest reservations ?s1)" and "stable ?s1 (placedLoop k rest reservations ?s1)"
    by simp_all
  then show ?thesis
    using False 2 by (auto simp add: placedResult_def placedOutcome_def intro: stable_trans)
qed

lemma orders_placedReserve [simp]:
  "orders (placedReserve k item rest reservations s) = orders s"
  by (simp add: placedReserve_def tryReserveStock_def Let_def split: option.splits)

lemma orders_ship [simp]:
  "orders (shipItem a s) = orders s"
  "orders (deliverItem a s) = orders s"
  by (simp_all add: shipItem_def deliverItem_def Let_def)

lemma saga_run_task:
  assumes "saga_ok s"
  shows "saga_ok (run_task t s) \<and> stable s (run_task t s)"
proof (cases t)
  case (PlacedResult k item rest reservations success av)
  then show ?thesis using saga_placedResult [OF assms] by simp
qed (use assms in \<open>simp_all add: saga_ok_def keys_ok_def count_ok_def stable_def\<close>)

lemma saga_step:
  assumes "saga_ok s" and "fresh_id a s"
  shows "saga_ok (step a s) \<and> stable s (step a s)"
proof (cases a)
  case (CreateOrder uuid its)
  then have "orders s uuid = None" using assms(2) by simp
  then show ?thesis
    using assms(1) CreateOrder
    by (auto simp add: saga_ok_def keys_ok_def count_ok_def stable_def createOrder_orders)
next
  case (AddInventory pid q)
  have "orders (addInventory pid q s) = orders s"
    by (simp add: addInventory_def split: option.splits)
  then show ?thesis
    using assms(1) AddInventory by (simp add: saga_ok_def keys_ok_def count_ok_def stable_def)
next
  case (ReleaseStock pid q)
  have "orders (releaseStock pid q s) = orders s"
    by (simp add: releaseStock_def split: option.splits)
  then show ?thesis
    using assms(1) ReleaseStock by (simp add: saga_ok_def keys_ok_def count_ok_def stable_def)
next
  case (Resume n)
  let ?s0 = "s\<lparr>tasks := take n (tasks s) @ drop (Suc n) (tasks s)\<rparr>"
  have 0: "saga_ok ?s0" using assms(1) by (simp add: saga_ok_def keys_ok_def count_ok_def)
  have "stable s (run_task (tasks s ! n) ?s0)"
    using saga_run_task [OF 0, of "tasks s ! n"] by (simp add: stable_def)
  then show ?thesis
    using Resume assms(1) saga_run_task [OF 0, of "tasks s ! n"]
    by (simp add: resume_def stable_refl)
qed

lemma saga_exec:
  "saga_ok s \<Longrightarrow> fresh_ids as s \<Longrightarrow> saga_ok (exec as s) \<and> stable s (exec as s)"
proof (induction as arbitrary: s)
  case Nil
  then show ?case by (simp add: stable_refl)
next
  case (Cons a as)
  from saga_step [OF Cons.prems(1), of a] Cons.prems(2)
  have 1: "saga_ok (step a s)" and 2: "stable s (step a s)" by simp_all
  from Cons.IH [OF 1] Cons.prems(2)
  have "saga_ok (exec as (step a s))" and "stable (step a s) (exec as (step a s))" by simp_all
  then show ?case using 2 by (auto intro: stable_trans)
qed

lemma saga_ok_init: "saga_ok init"
  by (simp add: saga_ok_def keys_ok_def count_ok_def init_fields)


section \<open>Terminal transitions\<close>




section \<open>Events for a terminal order\<close>

text \<open>
  Claim C4, as amended. In every run from the start state in which each new order
  gets an unused id, an \<open>OutOfStock\<close> event, or a \<open>StockReserved\<close> event with at least
  one line (the ledger publishes no other), delivered for an order that is terminal
  leaves the order's status, id and requested items as they are; it is not ignored:
  its lines are appended to the unfulfillable and fulfillable lists as for any order.
\<close>

theorem terminal_event_appends:
  assumes "fresh_ids as init" and "orders (exec as init) k = Some order0"
    and "terminal (status order0)"
  shows "(\<exists>order. orders (handleOutOfStock k pid r a (exec as init)) k = Some order \<and>
            status order = status order0 \<and> order_id order = order_id order0 \<and>
            items order = items order0 \<and>
            unfulfillableItems order =
              unfulfillableItems order0 @ [\<lparr>productId = pid, quantity = r - a\<rparr>] \<and>
            fulfillableItems order =
              (if a > 0 then fulfillableItems order0 @ [\<lparr>productId = pid, quantity = a\<rparr>]
               else fulfillableItems order0)) \<and>
         (its \<noteq> [] \<longrightarrow>
            (\<exists>order. orders (handleStockReserved k its (exec as init)) k = Some order \<and>
               status order = status order0 \<and> order_id order = order_id order0 \<and>
               items order = items order0 \<and>
               unfulfillableItems order = unfulfillableItems order0 \<and>
               fulfillableItems order = fulfillableItems order0 @ its))"
proof -
  have ok: "saga_ok (exec as init)"
    using saga_exec [OF saga_ok_init assms(1)] by simp
  then have key: "order_id order0 = k"
    using assms(2) by (simp add: saga_ok_def keys_ok_def)
  have cnt: "length (items order0) \<le> length (fulfillableItems order0) + length (unfulfillableItems order0)"
    using ok assms(2,3) by (simp add: saga_ok_def count_ok_def)
  have 1: "\<exists>order. orders (handleOutOfStock k pid r a (exec as init)) k = Some order \<and>
            status order = status order0 \<and> order_id order = order_id order0 \<and>
            items order = items order0 \<and>
            unfulfillableItems order =
              unfulfillableItems order0 @ [\<lparr>productId = pid, quantity = r - a\<rparr>] \<and>
            fulfillableItems order =
              (if a > 0 then fulfillableItems order0 @ [\<lparr>productId = pid, quantity = a\<rparr>]
               else fulfillableItems order0)"
    using cnt by (auto simp add: orders_handleOutOfStock [OF assms(2) key] Let_def)
  have 2: "its \<noteq> [] \<longrightarrow>
            (\<exists>order. orders (handleStockReserved k its (exec as init)) k = Some order \<and>
               status order = status order0 \<and> order_id order = order_id order0 \<and>
               items order = items order0 \<and>
               unfulfillableItems order = unfulfillableItems order0 \<and>
               fulfillableItems order = fulfillableItems order0 @ its)"
  proof
    assume "its \<noteq> []"
    then obtain n where "length its = Suc n" by (cases its) simp_all
    then show "\<exists>order. orders (handleStockReserved k its (exec as init)) k = Some order \<and>
               status order = status order0 \<and> order_id order = order_id order0 \<and>
               items order = items order0 \<and>
               unfulfillableItems order = unfulfillableItems order0 \<and>
               fulfillableItems order = fulfillableItems order0 @ its"
      using cnt by (auto simp add: orders_handleStockReserved [OF assms(2) key])
  qed
  from 1 2 show ?thesis by blast
qed

theorem terminal_event_appends_witness:
  "fresh_ids (take 3 scenarioB) init \<and>
   orders (exec (take 3 scenarioB) init) ''order-B'' = Some \<lparr>order_id = ''order-B'',
            items = [\<lparr>productId = ''PROD-2'', quantity = 7\<rparr>, \<lparr>productId = ''PROD-3'', quantity = 3\<rparr>],
            status = Partial,
            fulfillableItems = [\<lparr>productId = ''PROD-2'', quantity = 5\<rparr>],
            unfulfillableItems = [\<lparr>productId = ''PROD-2'', quantity = 2\<rparr>]\<rparr> \<and>
   terminal (status \<lparr>order_id = ''order-B'',
            items = [\<lparr>productId = ''PROD-2'', quantity = 7\<rparr>, \<lparr>productId = ''PROD-3'', quantity = 3\<rparr>],
            status = Partial,
            fulfillableItems = [\<lparr>productId = ''PROD-2'', quantity = 5\<rparr>],
            unfulfillableItems = [\<lparr>productId = ''PROD-2'', quantity = 2\<rparr>]\<rparr>) \<and>
   (\<exists>order. orders (handleStockReserved ''order-B'' [\<lparr>productId = ''PROD-3'', quantity = 3\<rparr>]
                (exec (take 3 scenarioB) init)) ''order-B'' = Some order \<and>
      status order = Partial \<and>
      fulfillableItems order = [\<lparr>productId = ''PROD-2'', quantity = 5\<rparr>,
                                \<lparr>productId = ''PROD-3'', quantity = 3\<rparr>])"
proof -
  have h1: "fresh_ids (take 3 scenarioB) init"
    by code_simp
  have h2: "orders (exec (take 3 scenarioB) init) ''order-B'' = Some \<lparr>order_id = ''order-B'',
            items = [\<lparr>productId = ''PROD-2'', quantity = 7\<rparr>, \<lparr>productId = ''PROD-3'', quantity = 3\<rparr>],
            status = Partial,
            fulfillableItems = [\<lparr>productId = ''PROD-2'', quantity = 5\<rparr>],
            unfulfillableItems = [\<lparr>productId = ''PROD-2'', quantity = 2\<rparr>]\<rparr>"
    by code_simp
  have h3: "terminal (status \<lparr>order_id = ''order-B'',
            items = [\<lparr>productId = ''PROD-2'', quantity = 7\<rparr>, \<lparr>productId = ''PROD-3'', quantity = 3\<rparr>],
            status = Partial,
            fulfillableItems = [\<lparr>productId = ''PROD-2'', quantity = 5\<rparr>],
            unfulfillableItems = [\<lparr>productId = ''PROD-2'', quantity = 2\<rparr>]\<rparr>)"
    by simp
  show ?thesis
    using h1 h2 h3
      terminal_event_appends [OF h1 h2 h3, of "''PROD-2''" 7 5 "[\<lparr>productId = ''PROD-3'', quantity = 3\<rparr>]"]
    by auto
qed

text \<open>
  Claim C4 as stated fails: in scenario B the order is \<open>partial\<close> after the
  \<open>OutOfStock\<close> event of its first line, and the \<open>StockReserved\<close> event that follows
  adds a line to its fulfillable list.
\<close>

theorem terminal_order_counterexample:
  "getOrder ''order-B'' (exec (take 3 scenarioB) init) = Some \<lparr>order_id = ''order-B'',
            items = [\<lparr>productId = ''PROD-2'', quantity = 7\<rparr>, \<lparr>productId = ''PROD-3'', quantity = 3\<rparr>],
            status = Partial,
            fulfillableItems = [\<lparr>productId = ''PROD-2'', quantity = 5\<rparr>],
            unfulfillableItems = [\<lparr>productId = ''PROD-2'', quantity = 2\<rparr>]\<rparr> \<and>
   map_option fulfillableItems
     (getOrder ''order-B''
        (handleStockReserved ''order-B'' [\<lparr>productId = ''PROD-3'', quantity = 3\<rparr>]
           (exec (take 3 scenarioB) init))) =
     Some [\<lparr>productId = ''PROD-2'', quantity = 5\<rparr>, \<lparr>productId = ''PROD-3'', quantity = 3\<rparr>]"
  by code_simp

section \<open>The ledger's handling of one order\<close>

lemma progress_length: "progress k its A P ts \<Longrightarrow> length ts \<le> 1"
  by (induction k its A P ts rule: progress.induct) simp_all

lemma placed_for_nth:
  assumes "n < length ts"
  shows "placed_for k ts =
     placed_for k (take n ts) @ (if task_order (ts ! n) = Some k then [ts ! n] else []) @
     placed_for k (drop (Suc n) ts)"
proof -
  have "placed_for k ts = placed_for k (take n ts @ ts ! n # drop (Suc n) ts)"
    using assms by (simp add: id_take_nth_drop [symmetric])
  then show ?thesis by simp
qed

lemma placed_for_remove_other:
  "n < length ts \<Longrightarrow> task_order (ts ! n) \<noteq> Some k \<Longrightarrow>
   placed_for k (take n ts @ drop (Suc n) ts) = placed_for k ts"
  using placed_for_nth [of n ts k] by simp

lemma placed_for_remove_own:
  assumes "n < length ts" and "task_order (ts ! n) = Some k" and "length (placed_for k ts) \<le> 1"
  shows "placed_for k ts = [ts ! n] \<and> placed_for k (take n ts @ drop (Suc n) ts) = []"
proof -
  have "placed_for k ts = placed_for k (take n ts) @ [ts ! n] @ placed_for k (drop (Suc n) ts)"
    using placed_for_nth [OF assms(1), of k] assms(2) by simp
  moreover from this have "placed_for k (take n ts) = [] \<and> placed_for k (drop (Suc n) ts) = []"
    using assms(3) by simp
  ultimately show ?thesis by simp
qed

lemma granted_simps [simp]:
  "granted [] = []"
  "granted (A @ [(item, success, av)]) = granted A @ (if success then [\<lparr>productId = productId item, quantity = quantity item\<rparr>] else [])"
  by (simp_all add: granted_def)

lemma refused_simps [simp]:
  "refused k [] = []"
  "refused k (A @ [(item, success, av)]) =
     refused k A @ (if success then [] else [OutOfStock k (productId item) (quantity item) av])"
  by (simp_all add: refused_def)

text \<open>The four observations of an order, after each operation.\<close>

lemma saga_events_record_event [simp]:
  "saga_events k (record_event e s) = saga_events k s @ (if saga_event k e then [e] else [])"
  by (simp add: saga_events_def)

lemma saga_events_updates [simp]:
  "saga_events k (s\<lparr>tasks := ts\<rparr>) = saga_events k s"
  "saga_events k (s\<lparr>attempts := at\<rparr>) = saga_events k s"
  "saga_events k (s\<lparr>orders := os\<rparr>) = saga_events k s"
  "saga_events k (s\<lparr>inventory := iv\<rparr>) = saga_events k s"
  "saga_events k (s\<lparr>lockMap := lm\<rparr>) = saga_events k s"
  "saga_events k (s\<lparr>shipmentObjects := so\<rparr>) = saga_events k s"
  "saga_events k (s\<lparr>shipments := sh\<rparr>) = saga_events k s"
  by (simp_all add: saga_events_def)

lemma attempts_of_updates [simp]:
  "attempts_of k (s\<lparr>tasks := ts\<rparr>) = attempts_of k s"
  "attempts_of k (s\<lparr>published := pb\<rparr>) = attempts_of k s"
  "attempts_of k (s\<lparr>orders := os\<rparr>) = attempts_of k s"
  "attempts_of k (s\<lparr>inventory := iv\<rparr>) = attempts_of k s"
  "attempts_of k (s\<lparr>lockMap := lm\<rparr>) = attempts_of k s"
  "attempts_of k (s\<lparr>shipmentObjects := so\<rparr>) = attempts_of k s"
  "attempts_of k (s\<lparr>shipments := sh\<rparr>) = attempts_of k s"
  by (simp_all add: attempts_of_def)

lemma attempts_of_record_event [simp]: "attempts_of k (record_event e s) = attempts_of k s"
  by (simp add: attempts_of_def)

lemma obs_updateOrderStatus [simp]:
  "saga_events k (updateOrderStatus k' st s) = saga_events k s"
  "attempts_of k (updateOrderStatus k' st s) = attempts_of k s"
  by (simp_all add: saga_events_def attempts_of_def)

lemma placedLoop_items:
  "map_option items (orders (placedLoop k' rest reservations s) k) = map_option items (orders s k)"
  by (cases rest) (simp_all add: publishStockReserved_def handleStockReserved_items)

lemma placedLoop_attempts:
  "attempts_of k (placedLoop k' rest reservations s) = attempts_of k s"
  by (cases rest) (simp_all add: publishStockReserved_def attempts_of_def)

lemma placedLoop_saga_events:
  "saga_events k (placedLoop k' rest reservations s) =
     saga_events k s @
       (if k' = k \<and> rest = [] \<and> reservations \<noteq> [] then [StockReserved k' reservations] else [])"
  by (cases rest) (simp_all add: publishStockReserved_def)

lemma placedLoop_placed_for:
  "placed_for k (tasks (placedLoop k' rest reservations s)) =
     placed_for k (tasks s) @
       (case rest of [] \<Rightarrow> [] | item # rest' \<Rightarrow>
          if k' = k then [PlacedDelay k' item rest' reservations] else [])"
  by (cases rest) (simp_all add: publishStockReserved_def)

lemmas placedLoop_obs =
  placedLoop_items placedLoop_attempts placedLoop_saga_events placedLoop_placed_for

lemma placedResult_obs:
  "map_option items (orders (placedResult k' item rest reservations success av s) k) =
     map_option items (orders s k)"
  "attempts_of k (placedResult k' item rest reservations success av s) = attempts_of k s"
  "saga_events k (placedResult k' item rest reservations success av s) =
     saga_events k s @
       (if k' = k \<and> \<not> success then [OutOfStock k' (productId item) (quantity item) av] else []) @
       (if k' = k \<and> rest = [] \<and> reservations @ (if success then [\<lparr>productId = productId item, quantity = quantity item\<rparr>] else []) \<noteq> []
        then [StockReserved k' (reservations @ (if success then [\<lparr>productId = productId item, quantity = quantity item\<rparr>] else []))] else [])"
  "placed_for k (tasks (placedResult k' item rest reservations success av s)) =
     placed_for k (tasks s) @
       (case rest of [] \<Rightarrow> [] | item' # rest' \<Rightarrow>
          if k' = k then [PlacedDelay k' item' rest' (reservations @ (if success then [\<lparr>productId = productId item, quantity = quantity item\<rparr>] else []))]
          else [])"
proof -
  let ?res = "reservations @ (if success then [\<lparr>productId = productId item, quantity = quantity item\<rparr>] else [])"
  let ?s1 = "if success then s else publishOutOfStock k' (productId item) (quantity item) av s"
  have eq: "placedResult k' item rest reservations success av s = placedLoop k' rest ?res ?s1"
    by (simp add: placedResult_def placedOutcome_def)
  show "map_option items (orders (placedResult k' item rest reservations success av s) k) =
     map_option items (orders s k)"
    unfolding eq by (simp add: placedLoop_obs publishOutOfStock_def handleOutOfStock_items)
  show "attempts_of k (placedResult k' item rest reservations success av s) = attempts_of k s"
    unfolding eq by (simp add: placedLoop_obs publishOutOfStock_def attempts_of_def)
  show "saga_events k (placedResult k' item rest reservations success av s) =
     saga_events k s @
       (if k' = k \<and> \<not> success then [OutOfStock k' (productId item) (quantity item) av] else []) @
       (if k' = k \<and> rest = [] \<and> reservations @ (if success then [\<lparr>productId = productId item, quantity = quantity item\<rparr>] else []) \<noteq> []
        then [StockReserved k' (reservations @ (if success then [\<lparr>productId = productId item, quantity = quantity item\<rparr>] else []))] else [])"
    unfolding eq by (simp add: placedLoop_obs publishOutOfStock_def)
  show "placed_for k (tasks (placedResult k' item rest reservations success av s)) =
     placed_for k (tasks s) @
       (case rest of [] \<Rightarrow> [] | item' # rest' \<Rightarrow>
          if k' = k then [PlacedDelay k' item' rest' (reservations @ (if success then [\<lparr>productId = productId item, quantity = quantity item\<rparr>] else []))]
          else [])"
    unfolding eq by (simp add: placedLoop_obs publishOutOfStock_def)
qed


lemma attempts_of_append [simp]:
  "attempts_of k (s\<lparr>attempts := attempts s @ [(k', item, success, av)]\<rparr>) =
     attempts_of k s @ (if k' = k then [(item, success, av)] else [])"
  by (simp add: attempts_of_def)

lemma placedReserve_obs:
  "\<exists>t A1. placed_for k (tasks (placedReserve k' item rest reservations s)) =
             placed_for k (tasks s) @ (if k' = k then [t] else []) \<and>
          attempts_of k (placedReserve k' item rest reservations s) =
             attempts_of k s @ (if k' = k then A1 else []) \<and>
          saga_events k (placedReserve k' item rest reservations s) = saga_events k s \<and>
          ((t = PlacedLock k' item rest reservations \<and> A1 = []) \<or>
           (\<exists>success av. t = PlacedResult k' item rest reservations success av \<and>
              A1 = [(item, success, av)]))"
proof -
  obtain r s1 where r: "tryReserveStock (productId item) (quantity item) s = (r, s1)"
    by (cases "tryReserveStock (productId item) (quantity item) s")
  have s1: "tasks s1 = tasks s" "published s1 = published s" "attempts s1 = attempts s"
    using tasks_tryReserveStock [of "productId item" "quantity item" s] r by simp_all
  show ?thesis
  proof (cases r)
    case None
    then have "placedReserve k' item rest reservations s =
        s1\<lparr>tasks := tasks s1 @ [PlacedLock k' item rest reservations]\<rparr>"
      using r by (simp add: placedReserve_def)
    then show ?thesis
      using s1 by (auto simp add: saga_events_def attempts_of_def)
  next
    case (Some res)
    obtain success av where "res = (success, av)" by (cases res)
    then have "placedReserve k' item rest reservations s =
        s1\<lparr>tasks := tasks s1 @ [PlacedResult k' item rest reservations success av],
           attempts := attempts s1 @ [(k', item, success, av)]\<rparr>"
      using r Some by (simp add: placedReserve_def)
    then show ?thesis
      using s1 by (auto simp add: saga_events_def attempts_of_def)
  qed
qed

lemma ship_obs [simp]:
  "placed_for k (tasks (shipItem a s)) = placed_for k (tasks s)"
  "attempts_of k (shipItem a s) = attempts_of k s"
  "saga_events k (shipItem a s) = saga_events k s"
  "placed_for k (tasks (deliverItem a s)) = placed_for k (tasks s)"
  "attempts_of k (deliverItem a s) = attempts_of k s"
  "saga_events k (deliverItem a s) = saga_events k s"
  by (simp_all add: shipItem_def deliverItem_def Let_def)

lemma createOrder_obs:
  "placed_for k (tasks (snd (createOrder uuid its s))) =
     placed_for k (tasks s) @
       (case its of [] \<Rightarrow> [] | item # rest \<Rightarrow> if uuid = k then [PlacedDelay uuid item rest []] else [])"
  "attempts_of k (snd (createOrder uuid its s)) = attempts_of k s"
  "saga_events k (snd (createOrder uuid its s)) = saga_events k s"
proof -
  have eq: "snd (createOrder uuid its s) =
      updateOrderStatus uuid Processing
        (placedLoop uuid its []
           (record_event (OrderPlaced uuid its)
              (s\<lparr>orders := (orders s)(uuid \<mapsto> \<lparr>order_id = uuid, items = its, status = Pending,
                    fulfillableItems = [], unfulfillableItems = []\<rparr>)\<rparr>)))"
    by (simp add: createOrder_def Let_def publishOrderPlaced_def handleOrderPlaced_def
        split: option.splits)
  show "placed_for k (tasks (snd (createOrder uuid its s))) =
     placed_for k (tasks s) @
       (case its of [] \<Rightarrow> [] | item # rest \<Rightarrow> if uuid = k then [PlacedDelay uuid item rest []] else [])"
    unfolding eq by (simp add: placedLoop_placed_for)
  show "attempts_of k (snd (createOrder uuid its s)) = attempts_of k s"
    unfolding eq by (simp add: placedLoop_attempts)
  show "saga_events k (snd (createOrder uuid its s)) = saga_events k s"
    unfolding eq by (simp add: placedLoop_saga_events)
qed

lemma prog_cong:
  "map_option items (orders s' k) = map_option items (orders s k) \<Longrightarrow>
   attempts_of k s' = attempts_of k s \<Longrightarrow> saga_events k s' = saga_events k s \<Longrightarrow>
   placed_for k (tasks s') = placed_for k (tasks s) \<Longrightarrow> prog k s' = prog k s"
  by (cases "orders s k"; cases "orders s' k") (auto simp add: prog_def)


lemma progress_split:
  assumes "A \<noteq> []" and "last A = x"
  shows "A = butlast A @ [x]"
  using assms by (metis append_butlast_last_id)

lemma prog_resume_own:
  assumes p: "progress k its A P [t]" and own: "task_order t = Some k"
    and s0: "placed_for k (tasks s0) = []" "attempts_of k s0 = A" "saga_events k s0 = P"
      "orders s0 k = Some order" "items order = its"
  shows "prog k (run_task t s0)"
proof (cases t)
  case (PlacedDelay k' item rest reservations)
  then have k': "k' = k" using own by simp
  from placedReserve_obs [of k k item rest reservations s0]
  obtain t' A1 where o:
    "placed_for k (tasks (placedReserve k item rest reservations s0)) = [t']"
    "attempts_of k (placedReserve k item rest reservations s0) = A @ A1"
    "saga_events k (placedReserve k item rest reservations s0) = P"
    "(t' = PlacedLock k item rest reservations \<and> A1 = []) \<or>
     (\<exists>success av. t' = PlacedResult k item rest reservations success av \<and> A1 = [(item, success, av)])"
    using s0 by auto
  from o(4) have "progress k its (A @ A1) P [t']"
    using p PlacedDelay k' by auto
  then show ?thesis
    using PlacedDelay k' o(1,2,3) s0(4,5) by (simp add: prog_def)
next
  case (PlacedLock k' item rest reservations)
  then have k': "k' = k" using own by simp
  from placedReserve_obs [of k k item rest reservations s0]
  obtain t' A1 where o:
    "placed_for k (tasks (placedReserve k item rest reservations s0)) = [t']"
    "attempts_of k (placedReserve k item rest reservations s0) = A @ A1"
    "saga_events k (placedReserve k item rest reservations s0) = P"
    "(t' = PlacedLock k item rest reservations \<and> A1 = []) \<or>
     (\<exists>success av. t' = PlacedResult k item rest reservations success av \<and> A1 = [(item, success, av)])"
    using s0 by auto
  from o(4) have "progress k its (A @ A1) P [t']"
    using p PlacedLock k' by auto
  then show ?thesis
    using PlacedLock k' o(1,2,3) s0(4,5) by (simp add: prog_def)
next
  case (PlacedResult k' item rest reservations success av)
  then have k': "k' = k" using own by simp
  let ?s1 = "placedResult k item rest reservations success av s0"
  from p PlacedResult have pr: "A \<noteq> []" "last A = (item, success, av)" "map fst A @ rest = its"
    "reservations = granted (butlast A)" "P = refused k (butlast A)"
    by simp_all
  have A: "A = butlast A @ [(item, success, av)]"
    using progress_split [OF pr(1,2)] .
  have g: "granted A = reservations @
      (if success then [\<lparr>productId = productId item, quantity = quantity item\<rparr>] else [])"
    using pr(4) granted_simps(2) [of "butlast A" item success av] A by simp
  have f: "refused k A = P @ (if success then [] else [OutOfStock k (productId item) (quantity item) av])"
    using pr(5) refused_simps(2) [of k "butlast A" item success av] A by simp
  obtain order' where o': "orders ?s1 k = Some order'" "items order' = its"
    using placedResult_obs(1) [of k item rest reservations success av s0 k] s0(4,5)
    by (cases "orders ?s1 k") auto
  have at: "attempts_of k ?s1 = A"
    using s0(2) by (simp add: placedResult_obs)
  have ev: "saga_events k ?s1 =
      refused k A @ (if rest = [] \<and> granted A \<noteq> [] then [StockReserved k (granted A)] else [])"
    using s0(3) f g by (simp add: placedResult_obs)
  have pf: "placed_for k (tasks ?s1) =
      (case rest of [] \<Rightarrow> [] | item' # rest' \<Rightarrow> [PlacedDelay k item' rest' (granted A)])"
    using s0(1) g by (simp add: placedResult_obs split: list.splits)
  have "progress k its A (saga_events k ?s1) (placed_for k (tasks ?s1))"
    unfolding ev pf using pr(3) by (cases rest) simp_all
  then show ?thesis
    using PlacedResult k' o' at by (simp add: prog_def)
next
  case (ShipDelay a)
  then show ?thesis using own by simp
next
  case (DeliverDelay a)
  then show ?thesis using own by simp
qed

lemma prog_resume_other:
  assumes "task_order t \<noteq> Some k"
  shows "map_option items (orders (run_task t s0) k) = map_option items (orders s0 k) \<and>
         attempts_of k (run_task t s0) = attempts_of k s0 \<and>
         saga_events k (run_task t s0) = saga_events k s0 \<and>
         placed_for k (tasks (run_task t s0)) = placed_for k (tasks s0)"
proof (cases t)
  case (PlacedDelay k' item rest reservations)
  then have "k' \<noteq> k" using assms by simp
  then show ?thesis
    using PlacedDelay placedReserve_obs [of k k' item rest reservations s0] by auto
next
  case (PlacedLock k' item rest reservations)
  then have "k' \<noteq> k" using assms by simp
  then show ?thesis
    using PlacedLock placedReserve_obs [of k k' item rest reservations s0] by auto
next
  case (PlacedResult k' item rest reservations success av)
  then have "k' \<noteq> k" using assms by simp
  then show ?thesis
    using PlacedResult by (simp add: placedResult_obs split: list.splits)
next
  case (ShipDelay a)
  then show ?thesis by simp
next
  case (DeliverDelay a)
  then show ?thesis by simp
qed

lemma prog_tasks_update:
  "placed_for k ts = placed_for k (tasks s) \<Longrightarrow> prog k (s\<lparr>tasks := ts\<rparr>) = prog k s"
  by (intro prog_cong) simp_all

lemma prog_resume:
  assumes all: "prog k s" and n: "n < length (tasks s)"
  shows "prog k (resume n s)"
proof -
  let ?t = "tasks s ! n"
  let ?s0 = "s\<lparr>tasks := take n (tasks s) @ drop (Suc n) (tasks s)\<rparr>"
  have r: "resume n s = run_task ?t ?s0" using n by (simp add: resume_def)
  show ?thesis
  proof (cases "task_order ?t = Some k")
    case False
    have pf: "placed_for k (tasks ?s0) = placed_for k (tasks s)"
      using placed_for_remove_other [OF n False] by simp
    have "prog k ?s0" using all pf by (simp add: prog_tasks_update)
    moreover have "prog k (run_task ?t ?s0) = prog k ?s0"
      using prog_resume_other [OF False, of ?s0] by (intro prog_cong) simp_all
    ultimately show ?thesis using r by simp
  next
    case True
    have ne: "placed_for k (tasks s) \<noteq> []"
      using placed_for_nth [OF n, of k] True by simp
    then obtain order where od: "orders s k = Some order"
      using all by (cases "orders s k") (simp_all add: prog_def)
    then have p: "progress k (items order) (attempts_of k s) (saga_events k s) (placed_for k (tasks s))"
      using all by (simp add: prog_def)
    from placed_for_remove_own [OF n True progress_length [OF p]]
    have own: "placed_for k (tasks s) = [?t]" "placed_for k (tasks ?s0) = []"
      by simp_all
    have "prog k (run_task ?t ?s0)"
      by (rule prog_resume_own [OF _ True, where A = "attempts_of k s" and P = "saga_events k s"
            and its = "items order" and order = order])
         (use p own od in simp_all)
    then show ?thesis using r by simp
  qed
qed

lemma prog_step:
  assumes all: "\<And>k. prog k s" and fresh: "fresh_id a s"
  shows "prog k (step a s)"
proof (cases a)
  case (CreateOrder uuid its)
  then have none: "orders s uuid = None" using fresh by simp
  show ?thesis
  proof (cases "k = uuid")
    case True
    have "placed_for k (tasks s) = []" "attempts_of k s = []" "saga_events k s = []"
      using all [of k] none True by (simp_all add: prog_def)
    then show ?thesis
      using CreateOrder True
      by (cases its) (simp_all add: prog_def createOrder_orders createOrder_obs)
  next
    case False
    have "prog k (snd (createOrder uuid its s)) = prog k s"
      using False by (intro prog_cong) (simp_all add: createOrder_orders createOrder_obs split: list.splits)
    then show ?thesis using CreateOrder all [of k] by simp
  qed
next
  case (AddInventory pid q)
  have "prog k (addInventory pid q s) = prog k s"
    by (simp add: addInventory_def prog_def split: option.splits)
  then show ?thesis using AddInventory all [of k] by simp
next
  case (ReleaseStock pid q)
  have "prog k (releaseStock pid q s) = prog k s"
    by (simp add: releaseStock_def prog_def split: option.splits)
  then show ?thesis using ReleaseStock all [of k] by simp
next
  case (Resume n)
  show ?thesis
  proof (cases "n < length (tasks s)")
    case True
    then show ?thesis using Resume prog_resume [OF all [of k] True] by simp
  next
    case False
    then show ?thesis using Resume all [of k] by (simp add: resume_def)
  qed
qed

lemma prog_exec:
  "(\<And>k. prog k s) \<Longrightarrow> fresh_ids as s \<Longrightarrow> prog k (exec as s)"
proof (induction as arbitrary: s k)
  case Nil
  then show ?case by simp
next
  case (Cons a as)
  have "\<And>k. prog k (step a s)"
    using Cons.prems by (simp add: prog_step)
  then show ?case using Cons.IH [of "step a s" k] Cons.prems(2) by simp
qed

lemma prog_init: "prog k init"
  by (simp add: prog_def init_fields attempts_of_def saga_events_def)


lemma progress_shape:
  assumes "progress k its A P ts"
  shows "(\<exists>rest. map fst A @ rest = its) \<and> length ts \<le> 1 \<and>
         (P = refused k A \<or> P = refused k (butlast A) \<or>
          (granted A \<noteq> [] \<and> P = refused k A @ [StockReserved k (granted A)]))"
  using assms by (induction k its A P ts rule: progress.induct) auto

lemma progress_no_lines:
  assumes "progress k [] A P ts"
  shows "ts = [] \<and> A = [] \<and> P = []"
  using assms by (induction k "[] :: OrderItem list" A P ts rule: progress.induct) auto

section \<open>Order of the events of one order\<close>

text \<open>
  Claim C5. In every run from the start state in which each new order gets an unused
  id, for every order \<open>k\<close> and at every moment: the lines for which a reservation has
  been attempted are a prefix of the order's requested lines, in the request order; at
  most one call of \<open>handleOrderPlaced\<close> is suspended for the order, so its lines are
  reserved one at a time; and the \<open>OutOfStock\<close> and \<open>StockReserved\<close> events published
  for the order (each handed to the order saga inside its publish call) are, in order
  of publication, the \<open>OutOfStock\<close> events of the failed attempts (all of them, or all
  but that of an attempt whose result is still awaited), followed by at most one
  \<open>StockReserved\<close> event, which is there only when some attempt succeeded, comes last
  and carries exactly the granted lines.
\<close>

theorem reservation_order:
  assumes "fresh_ids as init" and "orders (exec as init) k = Some order"
  shows "(\<exists>rest. map fst (attempts_of k (exec as init)) @ rest = items order) \<and>
         length (placed_for k (tasks (exec as init))) \<le> 1 \<and>
         (saga_events k (exec as init) = refused k (attempts_of k (exec as init)) \<or>
          saga_events k (exec as init) = refused k (butlast (attempts_of k (exec as init))) \<or>
          (granted (attempts_of k (exec as init)) \<noteq> [] \<and>
           saga_events k (exec as init) =
             refused k (attempts_of k (exec as init)) @
               [StockReserved k (granted (attempts_of k (exec as init)))]))"
proof -
  have "prog k (exec as init)"
    using prog_exec [OF prog_init assms(1)] .
  then have "progress k (items order) (attempts_of k (exec as init)) (saga_events k (exec as init))
      (placed_for k (tasks (exec as init)))"
    using assms(2) by (simp add: prog_def)
  then show ?thesis by (rule progress_shape)
qed

theorem reservation_order_witness:
  "fresh_ids scenarioB init \<and>
   orders (exec scenarioB init) ''order-B'' = Some \<lparr>order_id = ''order-B'',
            items = [\<lparr>productId = ''PROD-2'', quantity = 7\<rparr>, \<lparr>productId = ''PROD-3'', quantity = 3\<rparr>],
            status = Partial,
            fulfillableItems = [\<lparr>productId = ''PROD-2'', quantity = 5\<rparr>,
                                \<lparr>productId = ''PROD-3'', quantity = 3\<rparr>],
            unfulfillableItems = [\<lparr>productId = ''PROD-2'', quantity = 2\<rparr>]\<rparr> \<and>
   attempts_of ''order-B'' (exec scenarioB init) =
     [(\<lparr>productId = ''PROD-2'', quantity = 7\<rparr>, False, 5),
      (\<lparr>productId = ''PROD-3'', quantity = 3\<rparr>, True, 15)] \<and>
   saga_events ''order-B'' (exec scenarioB init) =
     [OutOfStock ''order-B'' ''PROD-2'' 7 5,
      StockReserved ''order-B'' [\<lparr>productId = ''PROD-3'', quantity = 3\<rparr>]] \<and>
   length (placed_for ''order-B'' (tasks (exec scenarioB init))) \<le> 1"
proof -
  have h1: "fresh_ids scenarioB init"
    by code_simp
  have h2: "orders (exec scenarioB init) ''order-B'' = Some \<lparr>order_id = ''order-B'',
            items = [\<lparr>productId = ''PROD-2'', quantity = 7\<rparr>, \<lparr>productId = ''PROD-3'', quantity = 3\<rparr>],
            status = Partial,
            fulfillableItems = [\<lparr>productId = ''PROD-2'', quantity = 5\<rparr>,
                                \<lparr>productId = ''PROD-3'', quantity = 3\<rparr>],
            unfulfillableItems = [\<lparr>productId = ''PROD-2'', quantity = 2\<rparr>]\<rparr>"
    by code_simp
  have h3: "attempts_of ''order-B'' (exec scenarioB init) =
     [(\<lparr>productId = ''PROD-2'', quantity = 7\<rparr>, False, 5),
      (\<lparr>productId = ''PROD-3'', quantity = 3\<rparr>, True, 15)]"
    by code_simp
  have h4: "saga_events ''order-B'' (exec scenarioB init) =
     [OutOfStock ''order-B'' ''PROD-2'' 7 5,
      StockReserved ''order-B'' [\<lparr>productId = ''PROD-3'', quantity = 3\<rparr>]]"
    by code_simp
  show ?thesis
    using h1 h2 h3 h4 reservation_order [OF h1 h2] by simp
qed

section \<open>An order without lines\<close>

lemma orders_handlers_other:
  assumes "keys_ok s" and "k' \<noteq> k"
  shows "orders (handleStockReserved k' its s) k = orders s k"
    and "orders (handleOutOfStock k' pid r a s) k = orders s k"
proof -
  show "orders (handleStockReserved k' its s) k = orders s k"
  proof (cases "orders s k'")
    case None
    then show ?thesis by (simp add: handlers_unknown_order)
  next
    case (Some order0)
    then have "order_id order0 = k'" using assms(1) by (simp add: keys_ok_def)
    from orders_handleStockReserved [OF Some this] show ?thesis using assms(2) by simp
  qed
  show "orders (handleOutOfStock k' pid r a s) k = orders s k"
  proof (cases "orders s k'")
    case None
    then show ?thesis by (simp add: handlers_unknown_order)
  next
    case (Some order0)
    then have "order_id order0 = k'" using assms(1) by (simp add: keys_ok_def)
    from orders_handleOutOfStock [OF Some this] show ?thesis using assms(2) by simp
  qed
qed

lemma orders_placedLoop_other:
  assumes "keys_ok s" and "k' \<noteq> k"
  shows "orders (placedLoop k' rest reservations s) k = orders s k"
proof (cases rest)
  case Nil
  have "keys_ok (record_event (StockReserved k' reservations) s)"
    using assms(1) by (simp add: keys_ok_def)
  from orders_handlers_other(1) [OF this assms(2)] show ?thesis
    using Nil by (simp add: publishStockReserved_def)
next
  case (Cons item rest')
  then show ?thesis by simp
qed

lemma orders_placedResult_other:
  assumes "saga_ok s" and "k' \<noteq> k"
  shows "orders (placedResult k' item rest reservations success av s) k = orders s k"
proof (cases success)
  case True
  then show ?thesis
    using orders_placedLoop_other [OF _ assms(2)] assms(1)
    by (simp add: placedResult_def placedOutcome_def saga_ok_def)
next
  case False
  let ?s0 = "record_event (OutOfStock k' (productId item) (quantity item) av) s"
  have 0: "saga_ok ?s0"
    using assms(1) by (simp add: saga_ok_def keys_ok_def count_ok_def)
  then have 1: "keys_ok ?s0" by (simp add: saga_ok_def)
  have 2: "keys_ok (handleOutOfStock k' (productId item) (quantity item) av ?s0)"
    using saga_handleOutOfStock [OF 0] by (simp add: saga_ok_def)
  show ?thesis
    using False orders_placedLoop_other [OF 2 assms(2)] orders_handlers_other(2) [OF 1 assms(2)]
    by (simp add: placedResult_def placedOutcome_def publishOutOfStock_def)
qed

lemma quiet_step:
  assumes "saga_ok s" and "prog k s" and "fresh_id a s"
    and "orders s k = Some order" and "items order = []"
  shows "orders (step a s) k = Some order"
proof -
  have "progress k [] (attempts_of k s) (saga_events k s) (placed_for k (tasks s))"
    using assms(2,4,5) by (simp add: prog_def)
  then have none: "placed_for k (tasks s) = []"
    using progress_no_lines by blast
  show ?thesis
  proof (cases a)
    case (CreateOrder uuid its)
    then have "uuid \<noteq> k" using assms(3,4) by auto
    then show ?thesis using CreateOrder assms(4) by (simp add: createOrder_orders)
  next
    case (AddInventory pid q)
    then show ?thesis using assms(4) by (simp add: addInventory_def split: option.splits)
  next
    case (ReleaseStock pid q)
    then show ?thesis using assms(4) by (simp add: releaseStock_def split: option.splits)
  next
    case (Resume n)
    show ?thesis
    proof (cases "n < length (tasks s)")
      case False
      then show ?thesis using Resume assms(4) by (simp add: resume_def)
    next
      case True
      let ?s0 = "s\<lparr>tasks := take n (tasks s) @ drop (Suc n) (tasks s)\<rparr>"
      have other: "task_order (tasks s ! n) \<noteq> Some k"
        using placed_for_nth [OF True, of k] none by auto
      have 0: "saga_ok ?s0"
        using assms(1) by (simp add: saga_ok_def keys_ok_def count_ok_def)
      have "orders (run_task (tasks s ! n) ?s0) k = orders ?s0 k"
      proof (cases "tasks s ! n")
        case (PlacedResult k' item rest reservations success av)
        then have "k' \<noteq> k" using other by simp
        from orders_placedResult_other [OF 0 this] show ?thesis
          using PlacedResult by simp
      qed simp_all
      then show ?thesis using Resume True assms(4) by (simp add: resume_def)
    qed
  qed
qed

lemma quiet_exec:
  "saga_ok s \<Longrightarrow> (\<And>k. prog k s) \<Longrightarrow> fresh_ids as s \<Longrightarrow> orders s k = Some order \<Longrightarrow>
   items order = [] \<Longrightarrow> orders (exec as s) k = Some order"
proof (induction as arbitrary: s)
  case Nil
  then show ?case by simp
next
  case (Cons a as)
  have f: "fresh_id a s" "fresh_ids as (step a s)" using Cons.prems(3) by simp_all
  have 1: "saga_ok (step a s)" using saga_step [OF Cons.prems(1) f(1)] by simp
  have 2: "\<And>k. prog k (step a s)" using prog_step [OF Cons.prems(2) f(1)] by simp
  have 3: "orders (step a s) k = Some order"
    using quiet_step [OF Cons.prems(1) Cons.prems(2) f(1) Cons.prems(4,5)] .
  show ?case using Cons.IH [OF 1 2 f(2) 3 Cons.prems(5)] by simp
qed

text \<open>
  Claim C10. \<open>createOrder\<close> on an empty items list returns an order in status
  \<open>processing\<close>. From then on, whatever else happens in the run (each new order
  getting an unused id), \<open>getOrder\<close> returns that order unchanged, in status
  \<open>processing\<close> with both outcome lists empty; no \<open>StockReserved\<close> and no \<open>OutOfStock\<close>
  event is published for it, no reservation is attempted for it and no call is
  suspended for it. The completion check runs only inside the two handlers of those
  events, so it is never evaluated for this order.
\<close>

theorem empty_order_stays_processing:
  assumes "fresh_ids (as @ CreateOrder k [] # bs) init"
  shows "fst (createOrder k [] (exec as init)) =
           \<lparr>order_id = k, items = [], status = Processing,
              fulfillableItems = [], unfulfillableItems = []\<rparr> \<and>
         getOrder k (exec (as @ CreateOrder k [] # bs) init) =
           Some \<lparr>order_id = k, items = [], status = Processing,
                  fulfillableItems = [], unfulfillableItems = []\<rparr> \<and>
         saga_events k (exec (as @ CreateOrder k [] # bs) init) = [] \<and>
         attempts_of k (exec (as @ CreateOrder k [] # bs) init) = [] \<and>
         placed_for k (tasks (exec (as @ CreateOrder k [] # bs) init)) = []"
proof -
  let ?order = "\<lparr>order_id = k, items = [], status = Processing,
              fulfillableItems = [], unfulfillableItems = []\<rparr>"
  let ?pre = "exec as init"
  let ?mid = "step (CreateOrder k []) ?pre"
  let ?fin = "exec (as @ CreateOrder k [] # bs) init"
  have f: "fresh_ids as init" "fresh_id (CreateOrder k []) ?pre" "fresh_ids bs ?mid"
    using assms by (simp_all add: fresh_ids_append)
  have s: "?fin = exec bs ?mid" by (simp add: exec_append)
  have ok0: "saga_ok ?pre" using saga_exec [OF saga_ok_init f(1)] by simp
  have ok1: "saga_ok ?mid" using saga_step [OF ok0 f(2)] by simp
  have p0: "\<And>k. prog k ?pre" using prog_exec [OF prog_init f(1)] .
  have p1: "\<And>k. prog k ?mid" using prog_step [OF p0 f(2)] .
  have o1: "orders ?mid k = Some ?order" by (simp add: createOrder_orders)
  have o: "orders ?fin k = Some ?order"
    unfolding s by (rule quiet_exec [OF ok1 p1 f(3) o1]) simp
  have "prog k ?fin" unfolding s using prog_exec [OF p1 f(3)] .
  then have "progress k [] (attempts_of k ?fin) (saga_events k ?fin) (placed_for k (tasks ?fin))"
    using o by (simp add: prog_def)
  then have "placed_for k (tasks ?fin) = [] \<and> attempts_of k ?fin = [] \<and> saga_events k ?fin = []"
    using progress_no_lines by blast
  moreover have "fst (createOrder k [] ?pre) = ?order"
    using createOrder_orders [of k "[]" ?pre]
    by (simp add: createOrder_def Let_def publishOrderPlaced_def handleOrderPlaced_def
        updateOrderStatus_def)
  ultimately show ?thesis using o by (simp add: getOrder_def)
qed

theorem empty_order_stays_processing_witness:
  "fresh_ids ([CreateOrder ''order-1'' [\<lparr>productId = ''PROD-1'', quantity = 7\<rparr>]] @
              CreateOrder ''order-0'' [] # [Resume 0, Resume 0, Resume 0, Resume 0]) init \<and>
   getOrder ''order-0''
     (exec ([CreateOrder ''order-1'' [\<lparr>productId = ''PROD-1'', quantity = 7\<rparr>]] @
            CreateOrder ''order-0'' [] # [Resume 0, Resume 0, Resume 0, Resume 0]) init) =
     Some \<lparr>order_id = ''order-0'', items = [], status = Processing,
            fulfillableItems = [], unfulfillableItems = []\<rparr> \<and>
   saga_events ''order-0''
     (exec ([CreateOrder ''order-1'' [\<lparr>productId = ''PROD-1'', quantity = 7\<rparr>]] @
            CreateOrder ''order-0'' [] # [Resume 0, Resume 0, Resume 0, Resume 0]) init) = []"
proof -
  have h: "fresh_ids ([CreateOrder ''order-1'' [\<lparr>productId = ''PROD-1'', quantity = 7\<rparr>]] @
              CreateOrder ''order-0'' [] # [Resume 0, Resume 0, Resume 0, Resume 0]) init"
    by code_simp
  show ?thesis
    using h empty_order_stays_processing [OF h] by simp
qed

end
